theory Spec2Isabelle
  imports Main
begin

section \<open>JavaScript string primitives used by the page\<close>

text \<open>
  A JavaScript string is a sequence of UTF-16 code units. The model keeps the code units
  below 256 (one \<^typ>\<open>char\<close> each), which covers every character the page itself
  compares against: the tab, the newline, the dot, \<open>Results:\<close>, \<open>Block Size\<close> and
  \<open>.csv\<close>.
\<close>

definition isWhiteSpace :: "char \<Rightarrow> bool" where
  \<comment> \<open>the code units below 256 that \<open>String.prototype.trim\<close> strips: TAB, LF, VT, FF, CR,
      SPACE and NBSP\<close>
  "isWhiteSpace c =
     (c = CHR 0x09 \<or> c = CHR 0x0A \<or> c = CHR 0x0B \<or> c = CHR 0x0C \<or> c = CHR 0x0D
      \<or> c = CHR 0x20 \<or> c = CHR 0xA0)"

definition trim :: "string \<Rightarrow> string" where
  "trim s = rev (dropWhile isWhiteSpace (rev (dropWhile isWhiteSpace s)))"

fun startsWith :: "string \<Rightarrow> string \<Rightarrow> bool" where
  "startsWith s [] = True"
| "startsWith [] (p # ps) = False"
| "startsWith (c # cs) (p # ps) = (c = p \<and> startsWith cs ps)"

fun includesStr :: "string \<Rightarrow> string \<Rightarrow> bool" where
  \<comment> \<open>\<open>s.includes(p)\<close>: \<open>p\<close> occurs in \<open>s\<close> as a contiguous substring\<close>
  "includesStr [] p = (p = [])"
| "includesStr (c # cs) p = (startsWith (c # cs) p \<or> includesStr cs p)"

definition endsWith :: "string \<Rightarrow> string \<Rightarrow> bool" where
  "endsWith s p = startsWith (rev s) (rev p)"

fun split :: "char \<Rightarrow> string \<Rightarrow> string list" where
  \<comment> \<open>\<open>s.split(sep)\<close> for a one-character separator: never empty, \<open>"".split(sep) = [""]\<close>\<close>
  "split sep [] = [[]]"
| "split sep (c # cs) =
     (if c = sep then [] # split sep cs
      else (case split sep cs of
              [] \<Rightarrow> [[c]]
            | w # ws \<Rightarrow> (c # w) # ws))"

fun join :: "string \<Rightarrow> string list \<Rightarrow> string" where
  "join sep [] = []"
| "join sep [x] = x"
| "join sep (x # y # zs) = x @ sep @ join sep (y # zs)"

definition toLowerCaseChar :: "char \<Rightarrow> char" where
  \<comment> \<open>the upper-case letters below 256 are A-Z and U+00C0-U+00DE without U+00D7; each maps
      to the code unit 32 above it\<close>
  "toLowerCaseChar c =
     (let n = (of_char c :: nat)
      in if (65 \<le> n \<and> n \<le> 90) \<or> (192 \<le> n \<and> n \<le> 222 \<and> n \<noteq> 215)
         then char_of (n + 32) else c)"

definition toLowerCase :: "string \<Rightarrow> string" where
  "toLowerCase s = map toLowerCaseChar s"

section \<open>The allocation report parser\<close>

text \<open>
  The block of \<open>handleSubmit\<close> that scans \<open>buddy_allocation_output\<close>
  (\<open>src/app/page.tsx\<close>, lines 202-225; the same loop is in every variant of the page):
  \<^verbatim>\<open>
    const lines = result.buddy_allocation_output.split("\n");
    const resultsTable = [];
    let headerLine = null;
    let inResults = false;
    for (const line of lines) {
      if (line.trim() === "Results:") {
        inResults = true;
      } else if (inResults && line.includes("Block Size")) {
        headerLine = line.trim().split("\t");
      } else if (inResults && line.trim() && headerLine) {
        const values = line.trim().split("\t");
        if (values.length === headerLine.length) {
          resultsTable.push(values);
        }
      }
    }
    if (headerLine && resultsTable.length > 0) {
      setParsedResults({ headers: headerLine, data: resultsTable });
    }
  \<close>
\<close>

record scan =
  inResults :: bool
  headerLine :: "string list option"
  resultsTable :: "string list list"

record table =
  headers :: "string list"
  data :: "string list list"

definition scanInit :: scan where
  "scanInit = \<lparr>inResults = False, headerLine = None, resultsTable = []\<rparr>"

definition scanLine :: "scan \<Rightarrow> string \<Rightarrow> scan" where
  \<comment> \<open>one iteration of the \<open>for (const line of lines)\<close> loop\<close>
  "scanLine st line =
     (if trim line = ''Results:'' then st\<lparr>inResults := True\<rparr>
      else if inResults st \<and> includesStr line ''Block Size''
        then st\<lparr>headerLine := Some (split (CHR 0x09) (trim line))\<rparr>
      else if inResults st \<and> trim line \<noteq> [] \<and> headerLine st \<noteq> None
        then (let values = split (CHR 0x09) (trim line)
              in if length values = length (the (headerLine st))
                 then st\<lparr>resultsTable := resultsTable st @ [values]\<rparr>
                 else st)
      else st)"

definition scanLines :: "string list \<Rightarrow> scan" where
  "scanLines ls = foldl scanLine scanInit ls"

definition parseReport :: "string \<Rightarrow> table option" where
  \<comment> \<open>the value handed to \<open>setParsedResults\<close>, or \<open>None\<close> when it is not called\<close>
  "parseReport text =
     (let st = scanLines (split (CHR 0x0A) text)
      in case headerLine st of
           None \<Rightarrow> None
         | Some h \<Rightarrow>
             if resultsTable st \<noteq> [] then Some \<lparr>headers = h, table.data = resultsTable st\<rparr>
             else None)"

section \<open>Upload validation\<close>

text \<open>
  What the page sees of a thrown or rejected value: whether \<open>err instanceof Error\<close> holds,
  and its \<open>name\<close> and \<open>message\<close>. The page never reads \<open>name\<close>.
\<close>

datatype js_error = JsError (instanceofError: bool) (errorName: string) (message: string)

text \<open>
  A row of \<open>result.data\<close> as Papa Parse produces it with \<open>header: true\<close>: an object from
  column names to cell texts, kept as the list of its own properties.
\<close>

type_synonym row = "(string \<times> string) list"

definition hasKey :: "string \<Rightarrow> row \<Rightarrow> bool" where
  \<comment> \<open>\<open>key in row\<close>\<close>
  "hasKey k r = (k \<in> set (map fst r))"

text \<open>
  An uploaded file: its name, and what \<open>Papa.parse(file, {header: true, skipEmptyLines:
  true, complete: resolve, error: reject})\<close> settles the promise with, the tokenizer being
  outside the repository: \<open>Inl err\<close> when it rejects, \<open>Inr data\<close> when it completes with
  \<open>result.data = data\<close>.
\<close>

record File =
  name :: string
  papa :: "js_error + row list"

record dataset =
  name :: string
  data :: "row list"
  entry_size :: "int option"

text \<open>
  \<open>entry_size\<close> is \<open>None\<close> when the property is missing or \<open>undefined\<close>;
  \<open>JSON.stringify\<close> leaves such a property out of the request body.

  The value of the promise returned by \<open>validateCSVFiles\<close>, together with its two
  effects: the argument of the \<open>setError\<close> call it made, if any, and the slots whose file
  it handed to \<open>Papa.parse\<close>, in call order.
\<close>

record validation =
  valid :: bool
  datasets :: "dataset list"
  setError :: "string option"
  papaCalls :: "nat list"

definition arrayGet :: "'a option list \<Rightarrow> nat \<Rightarrow> 'a option" where
  \<comment> \<open>\<open>xs[i]\<close>: \<open>undefined\<close> beyond the end of the array and at a hole\<close>
  "arrayGet xs i = (if i < length xs then xs ! i else None)"

definition stripExtension :: "string \<Rightarrow> string" where
  \<comment> \<open>\<open>file.name.split(".").slice(0, -1).join(".")\<close>\<close>
  "stripExtension n = join ''.'' (butlast (split (CHR ''.'') n))"

definition invalid :: "string \<Rightarrow> nat list \<Rightarrow> validation" where
  \<comment> \<open>\<open>setError(msg); return { valid: false, datasets: [] };\<close>\<close>
  "invalid msg calls = \<lparr>valid = False, datasets = [], setError = Some msg, papaCalls = calls\<rparr>"

text \<open>
  \<open>validateCSVFiles\<close> of \<open>src/app/page.tsx\<close> (lines 89-150; the batch variant in
  \<open>src/unnamed/part_000\<close>, lines 1065-1126, is the same function). The \<open>for\<close> loop is
  the recursion over the slots from index \<open>i\<close> on; \<open>ds\<close> is the array \<open>datasets\<close> and
  \<open>entrySizes\<close> the state the closure reads.
\<close>

fun validateLoop ::
  "int option list \<Rightarrow> nat \<Rightarrow> File option list \<Rightarrow> dataset list \<Rightarrow> nat list \<Rightarrow> validation" where
  "validateLoop entrySizes i [] ds calls =
     \<lparr>valid = True, datasets = ds, setError = None, papaCalls = calls\<rparr>"
| "validateLoop entrySizes i (None # rest) ds calls =
     invalid ''Please upload all required CSV files.'' calls"
| "validateLoop entrySizes i (Some file # rest) ds calls =
     (if \<not> endsWith (toLowerCase (File.name file)) ''.csv''
      then invalid (''File '' @ File.name file @ '' is not a CSV file.'') calls
      else (case papa file of
              Inl err \<Rightarrow>
                invalid (''Error parsing file '' @ File.name file @ '': '' @
                         (if instanceofError err then message err else ''Unknown error''))
                  (calls @ [i])
            | Inr rows \<Rightarrow>
                if rows = [] \<or> \<not> hasKey ''Day No.'' (hd rows)
                   \<or> \<not> hasKey ''Number of entries'' (hd rows)
                then invalid (''File '' @ File.name file @
                       '' is missing required columns 'Day No.' and/or 'Number of entries'.'')
                       (calls @ [i])
                else validateLoop entrySizes (Suc i) rest
                       (ds @ [\<lparr>name = stripExtension (File.name file), data = rows,
                               entry_size = arrayGet entrySizes i\<rparr>])
                       (calls @ [i])))"

definition validateCSVFiles :: "int option list \<Rightarrow> File option list \<Rightarrow> validation" where
  "validateCSVFiles entrySizes files = validateLoop entrySizes 0 files [] []"

text \<open>
  \<open>validateCSVFiles\<close> of \<open>src/unnamed/part_001\<close> (lines 55-100): the same checks in the
  same order, but no branch calls \<open>setError\<close> and a dataset has no \<open>entry_size\<close>.
\<close>

fun validateLoop_part001 ::
  "nat \<Rightarrow> File option list \<Rightarrow> dataset list \<Rightarrow> nat list \<Rightarrow> validation" where
  "validateLoop_part001 i [] ds calls =
     \<lparr>valid = True, datasets = ds, setError = None, papaCalls = calls\<rparr>"
| "validateLoop_part001 i (None # rest) ds calls =
     \<lparr>valid = False, datasets = [], setError = None, papaCalls = calls\<rparr>"
| "validateLoop_part001 i (Some file # rest) ds calls =
     (if \<not> endsWith (toLowerCase (File.name file)) ''.csv''
      then \<lparr>valid = False, datasets = [], setError = None, papaCalls = calls\<rparr>
      else (case papa file of
              Inl err \<Rightarrow> \<lparr>valid = False, datasets = [], setError = None, papaCalls = calls @ [i]\<rparr>
            | Inr rows \<Rightarrow>
                if rows = [] \<or> \<not> hasKey ''Day No.'' (hd rows)
                   \<or> \<not> hasKey ''Number of entries'' (hd rows)
                then \<lparr>valid = False, datasets = [], setError = None, papaCalls = calls @ [i]\<rparr>
                else validateLoop_part001 (Suc i) rest
                       (ds @ [\<lparr>name = stripExtension (File.name file), data = rows,
                               entry_size = None\<rparr>])
                       (calls @ [i])))"

definition validateCSVFiles_part001 :: "File option list \<Rightarrow> validation" where
  "validateCSVFiles_part001 files = validateLoop_part001 0 files [] []"

subsection \<open>The entry-size inputs of the form\<close>

definition initEntrySizes :: "nat \<Rightarrow> int option list" where
  \<comment> \<open>the effect on \<open>numFiles\<close>: \<open>setEntrySizes(Array(numFiles).fill(1))\<close>\<close>
  "initEntrySizes numFiles = replicate numFiles (Some 1)"

definition handleEntrySizeChange :: "int option list \<Rightarrow> nat \<times> int option \<Rightarrow> int option list" where
  \<comment> \<open>\<open>parsed\<close> is \<open>parseInt(e.target.value)\<close>, \<open>None\<close> for \<open>NaN\<close>; \<open>NaN || 1\<close> and
      \<open>0 || 1\<close> are \<open>1\<close>. Writing past the end of a JavaScript array leaves holes.\<close>
  "handleEntrySizeChange entrySizes ev =
     (case ev of (index, parsed) \<Rightarrow>
        let v = (case parsed of None \<Rightarrow> 1 | Some n \<Rightarrow> if n = 0 then 1 else n)
        in if index < length entrySizes then entrySizes[index := Some v]
           else entrySizes @ replicate (index - length entrySizes) None @ [Some v])"

section \<open>Submitting the request\<close>

text \<open>
  The field \<open>buddy_allocation_output\<close> of the parsed response body: a falsy value (missing,
  \<open>null\<close>, \<open>0\<close>, \<open>false\<close>; the empty string is \<open>Text []\<close>), a string, or a truthy value
  that is not a string, on which \<open>.split\<close> is not a function.
\<close>

datatype report_field = Falsy | Text string | TruthyNonString

record api_result =
  buddy_allocation_output :: report_field

text \<open>
  A response as \<open>handleSubmit\<close> reads it. \<open>text'\<close> and \<open>json\<close> are what
  \<open>await response.text()\<close> and \<open>await response.json()\<close> give: \<open>Inl err\<close> when the
  promise rejects; \<open>Inr None\<close> is the body \<open>null\<close>, any other body is an object whose missing
  properties read as \<open>undefined\<close>.
\<close>

record Response =
  ok :: bool
  status :: nat
  text' :: "js_error + string"
  json :: "js_error + api_result option"

datatype settled = Resolved Response | Rejected js_error

text \<open>
  The network, as far as the page can observe it: the time in milliseconds after the call
  at which the \<open>fetch\<close> promise would settle if nobody aborted it, and how.
\<close>

record transport =
  settlesAt :: nat
  outcome :: settled

text \<open>
  The two errors that the browser, not the page, constructs: the rejection of an aborted
  \<open>fetch\<close>, and the \<open>TypeError\<close> of reading a property of \<open>null\<close>.
\<close>

record platform =
  abortError :: js_error
  nullAccess :: js_error

definition timeoutMs :: nat where
  \<comment> \<open>\<open>setTimeout(() => controller.abort(), 1800000)\<close>\<close>
  "timeoutMs = 1800000"

text \<open>
  \<open>setTimeout\<close> promises only that the callback does not run before the delay has passed.
  How many milliseconds later it runs (a throttled background tab, a busy event loop) is
  up to the browser, and so is which of the two runs first when the callback and the
  settling of the promise fall on the same millisecond.
\<close>

record timer =
  lateness :: nat
  timerFirstOnTie :: bool

definition fetch :: "platform \<Rightarrow> timer \<Rightarrow> transport \<Rightarrow> settled" where
  \<comment> \<open>\<open>await fetch(apiUrl, {..., signal: controller.signal})\<close> under the timer: the callback
      \<open>controller.abort()\<close> runs at \<open>timeoutMs + lateness\<close> and rejects a call that has not
      settled by then; a call that settles first runs \<open>clearTimeout(timeoutId)\<close>\<close>
  "fetch pf tm tr =
     (if settlesAt tr < timeoutMs + lateness tm
         \<or> (settlesAt tr = timeoutMs + lateness tm \<and> \<not> timerFirstOnTie tm)
      then outcome tr else Rejected (abortError pf))"

fun decimal :: "nat \<Rightarrow> string" where
  \<comment> \<open>a number inside a template literal\<close>
  "decimal n =
     (if n < 10 then [''0123456789'' ! n]
      else decimal (n div 10) @ [''0123456789'' ! (n mod 10)])"

record page =
  isLoading :: bool
  error :: "string option"
  apiResponse :: "api_result option"
  parsedResults :: "table option"

definition caught :: "js_error \<Rightarrow> page" where
  \<comment> \<open>the outer \<open>catch\<close> and \<open>finally\<close>:
      \<open>setError(err instanceof Error ? err.message : "An unknown error occurred")\<close>\<close>
  "caught err =
     \<lparr>isLoading = False,
      error = Some (if instanceofError err then message err else ''An unknown error occurred''),
      apiResponse = None, parsedResults = None\<rparr>"

definition parseOutput :: "report_field \<Rightarrow> table option" where
  \<comment> \<open>\<open>if (result.buddy_allocation_output) { try { ... } catch (err) { console.error(...) } }\<close>\<close>
  "parseOutput f =
     (case f of
        Falsy \<Rightarrow> None
      | Text s \<Rightarrow> if s = [] then None else parseReport s
      | TruthyNonString \<Rightarrow> None)"

text \<open>
  \<open>handleSubmit\<close> of \<open>src/app/page.tsx\<close> (lines 152-241), as the state of the page once
  the handler has finished. It starts by resetting \<open>error\<close>, \<open>apiResponse\<close> and
  \<open>parsedResults\<close> to \<open>null\<close>. \<open>server\<close> maps the request body to what the network does
  with it, and \<open>tm\<close> is how the browser runs the timer of this call.
\<close>

definition handleSubmit ::
  "platform \<Rightarrow> timer \<Rightarrow> (dataset list \<Rightarrow> transport) \<Rightarrow> int option list \<Rightarrow>
   File option list \<Rightarrow> page" where
  "handleSubmit pf tm server entrySizes fileInputs =
     (let validationResult = validateCSVFiles entrySizes fileInputs
      in if \<not> valid validationResult
         then \<lparr>isLoading = False, error = setError validationResult,
               apiResponse = None, parsedResults = None\<rparr>
         else (case fetch pf tm (server (datasets validationResult)) of
                 Rejected err \<Rightarrow> caught err
               | Resolved response \<Rightarrow>
                   if \<not> ok response
                   then (case text' response of
                           Inl err \<Rightarrow> caught err
                         | Inr body \<Rightarrow>
                             caught (JsError True ''Error''
                                      (''API request failed with status '' @
                                       decimal (status response) @ '': '' @ body)))
                   else (case json response of
                           Inl err \<Rightarrow> caught err
                         | Inr None \<Rightarrow> caught (nullAccess pf)
                         | Inr (Some result) \<Rightarrow>
                             \<lparr>isLoading = False, error = None, apiResponse = Some result,
                              parsedResults = parseOutput (buddy_allocation_output result)\<rparr>)))"

section \<open>Vocabulary of the statements\<close>

definition pushed :: "int option list \<Rightarrow> nat \<Rightarrow> File option \<Rightarrow> dataset" where
  \<comment> \<open>the object that \<open>validateCSVFiles\<close> pushes for an accepted file in slot \<open>i\<close>\<close>
  "pushed entrySizes i slot =
     \<lparr>name = stripExtension (File.name (the slot)),
      data = (case papa (the slot) of Inl err \<Rightarrow> [] | Inr rows \<Rightarrow> rows),
      entry_size = arrayGet entrySizes i\<rparr>"

text \<open>
  The acceptance rule of the report parser, said in words rather than as a loop, to be
  compared with \<open>parseReport\<close>. The cells of a line are its trimmed text split on the
  tab. The header in force after the lines \<open>pre\<close> is the last line containing
  \<open>Block Size\<close> from the first marker line on. A line \<open>l\<close> that follows \<open>pre\<close> is
  accepted as a row when \<open>pre\<close> holds a marker line, \<open>l\<close> is not a marker line, does not
  contain \<open>Block Size\<close>, is not blank, and has as many cells as the header in force.
  The accepted rows of a report are the cells of its accepted lines, in line order.
\<close>

definition cells :: "string \<Rightarrow> string list" where
  "cells l = split (CHR 0x09) (trim l)"

definition headerInForce :: "string list \<Rightarrow> string list option" where
  "headerInForce pre =
     (let hs = filter (\<lambda>l. includesStr l ''Block Size'')
                 (dropWhile (\<lambda>l. trim l \<noteq> ''Results:'') pre)
      in if hs = [] then None else Some (cells (last hs)))"

definition acceptedAsRow :: "string list \<Rightarrow> string \<Rightarrow> bool" where
  "acceptedAsRow pre l =
     ((\<exists>m\<in>set pre. trim m = ''Results:'') \<and> trim l \<noteq> ''Results:''
      \<and> \<not> includesStr l ''Block Size'' \<and> trim l \<noteq> []
      \<and> (case headerInForce pre of
            None \<Rightarrow> False
          | Some h \<Rightarrow> length (cells l) = length h))"

definition acceptedRows :: "string list \<Rightarrow> string list list" where
  "acceptedRows ls =
     map (\<lambda>i. cells (ls ! i))
       (filter (\<lambda>i. acceptedAsRow (take i ls) (ls ! i)) [0..<length ls])"

section \<open>Example inputs\<close>

text \<open>
  Three uploads: a file with the upper-case extension \<open>.CSV\<close> whose second row is short,
  a file with two dots in its name, and a text file. A browser, given by its two error
  values. A response with a report that has no \<open>Results:\<close> line. \<open>replyWith t s\<close> is a
  network that settles every request at time \<open>t\<close> with \<open>s\<close>. A timer that runs its
  callback on time, and one that runs it a second late.
\<close>

definition usageCsv :: File where
  "usageCsv = \<lparr>File.name = ''usage.CSV'',
      papa = Inr [[(''Day No.'', ''1''), (''Number of entries'', ''5'')], [(''Day No.'', ''2'')]]\<rparr>"

definition loadCsv :: File where
  "loadCsv = \<lparr>File.name = ''load.v2.csv'',
      papa = Inr [[(''Day No.'', ''1''), (''Number of entries'', ''9'')]]\<rparr>"

definition notesTxt :: File where
  "notesTxt = \<lparr>File.name = ''notes.txt'', papa = Inr []\<rparr>"

definition chromium :: platform where
  "chromium = \<lparr>abortError = JsError True ''AbortError'' ''signal is aborted without reason'',
      nullAccess = JsError True ''TypeError''
        ''Cannot read properties of null (reading 'buddy_allocation_output')''\<rparr>"

definition okResponse :: Response where
  "okResponse = \<lparr>ok = True, status = 200, text' = Inr [],
      json = Inr (Some \<lparr>buddy_allocation_output = Text ''Allocation failed''\<rparr>)\<rparr>"

definition replyWith :: "nat \<Rightarrow> settled \<Rightarrow> dataset list \<Rightarrow> transport" where
  "replyWith t s body = \<lparr>settlesAt = t, outcome = s\<rparr>"

definition punctual :: timer where
  "punctual = \<lparr>lateness = 0, timerFirstOnTie = True\<rparr>"


section \<open>Properties of the string primitives\<close>

lemma startsWith_set: "startsWith s p \<Longrightarrow> set p \<subseteq> set s"
  by (induction s p rule: startsWith.induct) auto

lemma startsWith_append: "startsWith s p \<Longrightarrow> \<exists>r. s = p @ r"
  by (induction s p rule: startsWith.induct) auto

lemma includesStr_set: "includesStr s p \<Longrightarrow> set p \<subseteq> set s"
proof (induction s)
  case Nil
  then show ?case by simp
next
  case (Cons c cs)
  then show ?case using startsWith_set [of "c # cs" p] by auto
qed

lemma set_dropWhile_cover: "set xs \<subseteq> set (dropWhile P xs) \<union> {x. P x}"
  by (induction xs) auto

lemma set_trim_cover: "set s \<subseteq> set (trim s) \<union> {c. isWhiteSpace c}"
proof -
  have "set s \<subseteq> set (dropWhile isWhiteSpace s) \<union> {c. isWhiteSpace c}"
    by (rule set_dropWhile_cover)
  moreover have "set (rev (dropWhile isWhiteSpace s))
      \<subseteq> set (dropWhile isWhiteSpace (rev (dropWhile isWhiteSpace s))) \<union> {c. isWhiteSpace c}"
    by (rule set_dropWhile_cover)
  ultimately show ?thesis
    unfolding trim_def by auto
qed

lemma split_not_Nil: "split sep s \<noteq> []"
  by (induction s) (auto split: list.splits)

lemma split_append_sep: "split sep (a @ sep # q) = split sep a @ split sep q"
proof (induction a)
  case Nil
  then show ?case by simp
next
  case (Cons c a)
  obtain w ws where w: "split sep a = w # ws"
    using split_not_Nil [of sep a] by (cases "split sep a") auto
  show ?case by (simp add: Cons w)
qed

lemma split_no_sep: "sep \<notin> set q \<Longrightarrow> split sep q = [q]"
  by (induction q) auto

lemma join_split: "join [sep] (split sep s) = s"
proof (induction s)
  case Nil
  then show ?case by simp
next
  case (Cons c s)
  obtain w ws where w: "split sep s = w # ws"
    using split_not_Nil [of sep s] by (cases "split sep s") auto
  show ?case
  proof (cases "c = sep")
    case True
    then show ?thesis using Cons by (simp add: w)
  next
    case False
    then show ?thesis using Cons by (cases ws) (simp_all add: w)
  qed
qed

lemma lower_dot: "toLowerCaseChar c = CHR ''.'' \<Longrightarrow> c = CHR ''.''"
proof (rule ccontr)
  assume l: "toLowerCaseChar c = CHR ''.''" and ne: "c \<noteq> CHR ''.''"
  let ?n = "of_char c :: nat"
  have up: "(65 \<le> ?n \<and> ?n \<le> 90) \<or> (192 \<le> ?n \<and> ?n \<le> 222 \<and> ?n \<noteq> 215)"
    using l ne by (auto simp: toLowerCaseChar_def Let_def split: if_splits)
  then have "char_of (?n + 32) = CHR ''.''"
    using l by (auto simp: toLowerCaseChar_def Let_def)
  then have "(of_char (char_of (?n + 32)) :: nat) = of_char (CHR ''.'')"
    by simp
  then have "(?n + 32) mod 256 = 46"
    by simp
  then show False using up by auto
qed

lemma lower_of_dot: "toLowerCaseChar (CHR ''.'') = CHR ''.''"
  by (simp add: toLowerCaseChar_def)

lemma endsWith_csv:
  assumes "endsWith (toLowerCase n) ''.csv''"
  shows "\<exists>a b. n = a @ CHR ''.'' # b \<and> length b = 3 \<and> CHR ''.'' \<notin> set b
           \<and> toLowerCase (CHR ''.'' # b) = ''.csv''"
proof -
  obtain r where r: "rev (toLowerCase n) = rev ''.csv'' @ r"
    using assms startsWith_append unfolding endsWith_def by blast
  then have "toLowerCase n = rev r @ ''.csv''"
    by (metis rev_append rev_rev_ident)
  then obtain a e where ae: "n = a @ e" "map toLowerCaseChar e = ''.csv''"
    unfolding toLowerCase_def by (auto simp: map_eq_append_conv)
  then obtain e0 e1 e2 e3 where e: "e = [e0, e1, e2, e3]"
    by (auto simp: map_eq_Cons_conv)
  have l: "toLowerCaseChar e0 = CHR ''.''" "toLowerCaseChar e1 = CHR ''c''"
    "toLowerCaseChar e2 = CHR ''s''" "toLowerCaseChar e3 = CHR ''v''"
    using ae(2) by (simp_all add: e)
  have "e0 = CHR ''.''" using l(1) by (rule lower_dot)
  moreover have "e1 \<noteq> CHR ''.''" "e2 \<noteq> CHR ''.''" "e3 \<noteq> CHR ''.''"
    using l lower_of_dot by auto
  ultimately show ?thesis
    using ae e by (intro exI [of _ a] exI [of _ "[e1, e2, e3]"]) (auto simp: toLowerCase_def)
qed

lemma stripExtension_csv:
  assumes "endsWith (toLowerCase n) ''.csv''"
  shows "stripExtension n = take (length n - 4) n"
    and "toLowerCase (drop (length n - 4) n) = ''.csv''"
proof -
  obtain a b where ab: "n = a @ CHR ''.'' # b" "length b = 3" "CHR ''.'' \<notin> set b"
      "toLowerCase (CHR ''.'' # b) = ''.csv''"
    using endsWith_csv [OF assms] by blast
  have "split (CHR ''.'') n = split (CHR ''.'') a @ [b]"
    by (simp add: ab(1) split_append_sep split_no_sep [OF ab(3)])
  then have "stripExtension n = a"
    unfolding stripExtension_def by (simp add: join_split)
  then show "stripExtension n = take (length n - 4) n"
    using ab by simp
  show "toLowerCase (drop (length n - 4) n) = ''.csv''"
    using ab by simp
qed

section \<open>Properties of the report scan\<close>

lemma header_not_marker:
  assumes "includesStr l ''Block Size''"
  shows "trim l \<noteq> ''Results:''"
proof
  assume m: "trim l = ''Results:''"
  have "CHR ''B'' \<in> set l"
    using includesStr_set [OF assms] by simp
  then have "CHR ''B'' \<in> set (trim l) \<or> isWhiteSpace (CHR ''B'')"
    using set_trim_cover [of l] by auto
  then show False
    by (simp add: m isWhiteSpace_def)
qed

lemma scanLine_marker: "trim l = ''Results:'' \<Longrightarrow> scanLine st l = st\<lparr>inResults := True\<rparr>"
  by (simp add: scanLine_def)

lemma scanLine_header:
  "inResults st \<Longrightarrow> includesStr l ''Block Size'' \<Longrightarrow>
   scanLine st l = st\<lparr>headerLine := Some (split (CHR 0x09) (trim l))\<rparr>"
  using header_not_marker [of l] by (simp add: scanLine_def)

lemma scanLine_outside:
  "\<not> inResults st \<Longrightarrow> trim l \<noteq> ''Results:'' \<Longrightarrow> scanLine st l = st"
  by (simp add: scanLine_def)

lemma scan_inResults:
  "inResults (foldl scanLine st ls) = (inResults st \<or> (\<exists>m\<in>set ls. trim m = ''Results:''))"
  by (induction ls arbitrary: st) (auto simp: scanLine_def Let_def)

lemma scan_outside:
  "\<not> inResults st \<Longrightarrow> \<forall>l\<in>set ls. trim l \<noteq> ''Results:'' \<Longrightarrow> foldl scanLine st ls = st"
  by (induction ls arbitrary: st) (simp_all add: scanLine_outside)

lemma scanLine_keeps_header:
  "\<not> includesStr l ''Block Size'' \<Longrightarrow> headerLine (scanLine st l) = headerLine st"
  by (simp add: scanLine_def Let_def)

lemma scanLine_stays_in: "inResults st \<Longrightarrow> inResults (scanLine st l)"
  by (simp add: scanLine_def Let_def)

lemma scan_header_in:
  "inResults st \<Longrightarrow>
   headerLine (foldl scanLine st ls) =
     (if filter (\<lambda>l. includesStr l ''Block Size'') ls = [] then headerLine st
      else Some (split (CHR 0x09) (trim (last (filter (\<lambda>l. includesStr l ''Block Size'') ls)))))"
proof (induction ls arbitrary: st)
  case Nil
  then show ?case by simp
next
  case (Cons l ls)
  have "inResults (scanLine st l)"
    using Cons.prems by (rule scanLine_stays_in)
  note IH = Cons.IH [OF this]
  show ?case
  proof (cases "includesStr l ''Block Size''")
    case True
    then show ?thesis
      using IH Cons.prems by (simp add: scanLine_header)
  next
    case False
    then show ?thesis
      using IH by (simp add: scanLine_keeps_header)
  qed
qed

lemma scan_header:
  "\<not> inResults st \<Longrightarrow>
   headerLine (foldl scanLine st ls) =
     (if filter (\<lambda>l. includesStr l ''Block Size'')
           (dropWhile (\<lambda>l. trim l \<noteq> ''Results:'') ls) = [] then headerLine st
      else Some (split (CHR 0x09) (trim (last (filter (\<lambda>l. includesStr l ''Block Size'')
           (dropWhile (\<lambda>l. trim l \<noteq> ''Results:'') ls))))))"
proof (induction ls arbitrary: st)
  case Nil
  then show ?case by simp
next
  case (Cons l ls)
  show ?case
  proof (cases "trim l = ''Results:''")
    case True
    then have "\<not> includesStr l ''Block Size''"
      using header_not_marker by blast
    then show ?thesis
      using True scan_header_in [of "st\<lparr>inResults := True\<rparr>" ls]
      by (simp add: scanLine_marker)
  next
    case False
    then show ?thesis
      using Cons by (simp add: scanLine_outside)
  qed
qed

lemma scan_headerInForce: "headerLine (scanLines ls) = headerInForce ls"
  unfolding scanLines_def headerInForce_def cells_def Let_def
  using scan_header [of scanInit ls] by (simp add: scanInit_def)

lemma scan_marker_seen: "inResults (scanLines ls) = (\<exists>m\<in>set ls. trim m = ''Results:'')"
  unfolding scanLines_def by (simp add: scan_inResults scanInit_def)

lemma scanLines_snoc: "scanLines (ls @ [l]) = scanLine (scanLines ls) l"
  by (simp add: scanLines_def)

lemma scan_step_rows:
  "resultsTable (scanLines (ls @ [l])) =
     resultsTable (scanLines ls) @ (if acceptedAsRow ls l then [cells l] else [])"
proof -
  have i: "inResults (scanLines ls) = (\<exists>m\<in>set ls. trim m = ''Results:'')"
    by (rule scan_marker_seen)
  have h: "headerLine (scanLines ls) = headerInForce ls"
    by (rule scan_headerInForce)
  show ?thesis
    unfolding scanLines_snoc acceptedAsRow_def scanLine_def Let_def cells_def [symmetric]
    using i h by (auto split: option.splits)
qed

lemma acceptedRows_snoc:
  "acceptedRows (ls @ [l]) = acceptedRows ls @ (if acceptedAsRow ls l then [cells l] else [])"
proof -
  have f: "filter (\<lambda>i. acceptedAsRow (take i (ls @ [l])) ((ls @ [l]) ! i)) [0..<length ls] =
      filter (\<lambda>i. acceptedAsRow (take i ls) (ls ! i)) [0..<length ls]"
    by (rule filter_cong) (auto simp: nth_append)
  have m: "map (\<lambda>i. cells ((ls @ [l]) ! i)) (filter (\<lambda>i. acceptedAsRow (take i ls) (ls ! i)) [0..<length ls])
      = map (\<lambda>i. cells (ls ! i)) (filter (\<lambda>i. acceptedAsRow (take i ls) (ls ! i)) [0..<length ls])"
    by (rule map_cong) (auto simp: nth_append)
  have "acceptedRows (ls @ [l]) =
      map (\<lambda>i. cells ((ls @ [l]) ! i))
        (filter (\<lambda>i. acceptedAsRow (take i (ls @ [l])) ((ls @ [l]) ! i)) [0..<length ls])
      @ (if acceptedAsRow ls l then [cells l] else [])"
    by (simp add: acceptedRows_def)
  then show ?thesis
    by (simp only: f m acceptedRows_def)
qed

lemma scan_acceptedRows: "resultsTable (scanLines ls) = acceptedRows ls"
proof (induction ls rule: rev_induct)
  case Nil
  then show ?case by (simp add: scanLines_def scanInit_def acceptedRows_def)
next
  case (snoc l ls)
  then show ?case by (simp only: scan_step_rows acceptedRows_snoc)
qed

lemma parseReport_spec:
  "parseReport text =
     (case headerInForce (split (CHR 0x0A) text) of
        None \<Rightarrow> None
      | Some h \<Rightarrow>
          if acceptedRows (split (CHR 0x0A) text) = [] then None
          else Some \<lparr>headers = h, table.data = acceptedRows (split (CHR 0x0A) text)\<rparr>)"
  by (simp add: parseReport_def Let_def scan_headerInForce scan_acceptedRows split: option.splits)

lemma accepted_needs_header: "headerInForce ls = None \<Longrightarrow> acceptedRows ls = []"
proof (induction ls rule: rev_induct)
  case Nil
  then show ?case by (simp add: acceptedRows_def)
next
  case (snoc l ls)
  have h: "headerLine (scanLine (scanLines ls) l) = None"
    using snoc.prems by (simp add: scan_headerInForce [symmetric] scanLines_snoc)
  have "headerLine (scanLines ls) = None"
    using h by (auto simp: scanLine_def Let_def split: if_splits)
  then have n: "headerInForce ls = None"
    by (simp add: scan_headerInForce)
  then have "\<not> acceptedAsRow ls l"
    by (simp add: acceptedAsRow_def)
  then show ?case
    using snoc.IH [OF n] by (simp add: acceptedRows_snoc)
qed

lemma acceptedRows_Nil:
  "(acceptedRows ls = []) = (\<forall>i<length ls. \<not> acceptedAsRow (take i ls) (ls ! i))"
  by (auto simp: acceptedRows_def filter_empty_conv)

lemma parseReport_None:
  "(parseReport text = None) =
     (\<forall>i<length (split (CHR 0x0A) text).
         \<not> acceptedAsRow (take i (split (CHR 0x0A) text)) (split (CHR 0x0A) text ! i))"
  using accepted_needs_header [of "split (CHR 0x0A) text"]
  by (auto simp: parseReport_spec acceptedRows_Nil [symmetric] split: option.splits)

lemma headerInForce_after:
  assumes "m \<in> set pre" and "trim m = ''Results:''" and "includesStr l ''Block Size''"
  shows "headerInForce (pre @ l # post) =
           Some (cells (last (filter (\<lambda>x. includesStr x ''Block Size'') (l # post))))"
proof -
  have "dropWhile (\<lambda>x. trim x \<noteq> ''Results:'') (pre @ l # post) =
      dropWhile (\<lambda>x. trim x \<noteq> ''Results:'') pre @ l # post"
    using assms(1,2) by (intro dropWhile_append1) auto
  then show ?thesis
    using assms(3) by (simp add: headerInForce_def Let_def)
qed

text \<open>
  Claim C10. Let line \<open>k\<close> of a report contain \<open>Block Size\<close> and come after a marker
  line. Then line \<open>k\<close> is not among the rows of the table that \<open>parseReport\<close> returns,
  whatever its cell count: the rows are the cells of the accepted lines other than \<open>k\<close>.
  The line replaces the headers: its cells are the header in force for the lines after
  it, and the headers of the table are the cells of the last line containing
  \<open>Block Size\<close> from line \<open>k\<close> on, which is line \<open>k\<close> itself unless a later such line
  replaces it in turn.
\<close>
theorem block_size_line_replaces_header:
  assumes "split (CHR 0x0A) text = ls" and "j < k" and "k < length ls"
    and "trim (ls ! j) = ''Results:''" and "includesStr (ls ! k) ''Block Size''"
  shows "parseReport text =
     (if filter (\<lambda>i. i \<noteq> k \<and> acceptedAsRow (take i ls) (ls ! i)) [0..<length ls] = [] then None
      else Some \<lparr>headers = cells (last (filter (\<lambda>x. includesStr x ''Block Size'') (drop k ls))),
                 table.data = map (\<lambda>i. cells (ls ! i))
                   (filter (\<lambda>i. i \<noteq> k \<and> acceptedAsRow (take i ls) (ls ! i)) [0..<length ls])\<rparr>)
     \<and> headerInForce (take (Suc k) ls) = Some (cells (ls ! k))"
proof -
  have nk: "\<not> acceptedAsRow (take k ls) (ls ! k)"
    using assms(5) by (simp add: acceptedAsRow_def)
  have f: "filter (\<lambda>i. i \<noteq> k \<and> acceptedAsRow (take i ls) (ls ! i)) [0..<length ls] =
      filter (\<lambda>i. acceptedAsRow (take i ls) (ls ! i)) [0..<length ls]"
    using nk by (intro filter_cong) auto
  have m: "ls ! j \<in> set (take k ls)"
    using assms(2,3) by (auto simp: in_set_conv_nth intro!: exI [of _ j])
  have ls: "ls = take k ls @ ls ! k # drop (Suc k) ls"
    using assms(3) by (rule id_take_nth_drop)
  have d: "drop k ls = ls ! k # drop (Suc k) ls"
    using assms(3) by (simp add: Cons_nth_drop_Suc)
  have "headerInForce (take k ls @ ls ! k # drop (Suc k) ls) =
      Some (cells (last (filter (\<lambda>x. includesStr x ''Block Size'') (ls ! k # drop (Suc k) ls))))"
    using m assms(4,5) by (rule headerInForce_after)
  then have h: "headerInForce ls =
      Some (cells (last (filter (\<lambda>x. includesStr x ''Block Size'') (drop k ls))))"
    using ls d by simp
  have "headerInForce (take k ls @ ls ! k # []) =
      Some (cells (last (filter (\<lambda>x. includesStr x ''Block Size'') (ls ! k # []))))"
    using m assms(4,5) by (rule headerInForce_after)
  then have s: "headerInForce (take (Suc k) ls) = Some (cells (ls ! k))"
    using assms(3,5) by (simp add: take_Suc_conv_app_nth)
  have "parseReport text =
     (if acceptedRows ls = [] then None
      else Some \<lparr>headers = cells (last (filter (\<lambda>x. includesStr x ''Block Size'') (drop k ls))),
                 table.data = acceptedRows ls\<rparr>)"
    by (simp add: parseReport_spec assms(1) h)
  then show ?thesis
    using s by (simp add: acceptedRows_def f)
qed

theorem block_size_line_replaces_header_witness:
  "split (CHR 0x0A) (''Results:'' @ [CHR 0x0A] @ ''Block Size'' @ [CHR 0x09] @ ''Count'' @ [CHR 0x0A]
       @ ''4'' @ [CHR 0x09] @ ''10'' @ [CHR 0x0A] @ ''Block Size 4'' @ [CHR 0x09] @ ''10''
       @ [CHR 0x0A] @ ''8'' @ [CHR 0x09] @ ''5'')
     = [''Results:'', ''Block Size'' @ [CHR 0x09] @ ''Count'', ''4'' @ [CHR 0x09] @ ''10'',
        ''Block Size 4'' @ [CHR 0x09] @ ''10'', ''8'' @ [CHR 0x09] @ ''5'']
   \<and> includesStr (''Block Size 4'' @ [CHR 0x09] @ ''10'') ''Block Size''
   \<and> length (cells (''Block Size 4'' @ [CHR 0x09] @ ''10''))
       = length (cells (''Block Size'' @ [CHR 0x09] @ ''Count''))
   \<and> parseReport (''Results:'' @ [CHR 0x0A] @ ''Block Size'' @ [CHR 0x09] @ ''Count'' @ [CHR 0x0A]
       @ ''4'' @ [CHR 0x09] @ ''10'' @ [CHR 0x0A] @ ''Block Size 4'' @ [CHR 0x09] @ ''10''
       @ [CHR 0x0A] @ ''8'' @ [CHR 0x09] @ ''5'')
     = Some \<lparr>headers = [''Block Size 4'', ''10''],
             table.data = [[''4'', ''10''], [''8'', ''5'']]\<rparr>"
proof -
  let ?t = "''Results:'' @ [CHR 0x0A] @ ''Block Size'' @ [CHR 0x09] @ ''Count'' @ [CHR 0x0A]
       @ ''4'' @ [CHR 0x09] @ ''10'' @ [CHR 0x0A] @ ''Block Size 4'' @ [CHR 0x09] @ ''10''
       @ [CHR 0x0A] @ ''8'' @ [CHR 0x09] @ ''5''"
  let ?ls = "[''Results:'', ''Block Size'' @ [CHR 0x09] @ ''Count'', ''4'' @ [CHR 0x09] @ ''10'',
        ''Block Size 4'' @ [CHR 0x09] @ ''10'', ''8'' @ [CHR 0x09] @ ''5'']"
  have a: "split (CHR 0x0A) ?t = ?ls" by simp
  have b: "(0::nat) < 3" "3 < length ?ls" by simp_all
  have c: "trim (?ls ! 0) = ''Results:''" by (simp add: trim_def isWhiteSpace_def)
  have d: "includesStr (?ls ! 3) ''Block Size''" by simp
  note t = block_size_line_replaces_header [OF a b c d, THEN conjunct1]
  have e: "includesStr (''Block Size 4'' @ [CHR 0x09] @ ''10'') ''Block Size''
      \<and> length (cells (''Block Size 4'' @ [CHR 0x09] @ ''10''))
       = length (cells (''Block Size'' @ [CHR 0x09] @ ''Count''))"
    by code_simp
  have r: "(if filter (\<lambda>i. i \<noteq> 3 \<and> acceptedAsRow (take i ?ls) (?ls ! i)) [0..<length ?ls] = [] then None
      else Some \<lparr>headers = cells (last (filter (\<lambda>x. includesStr x ''Block Size'') (drop 3 ?ls))),
                 table.data = map (\<lambda>i. cells (?ls ! i))
                   (filter (\<lambda>i. i \<noteq> 3 \<and> acceptedAsRow (take i ?ls) (?ls ! i)) [0..<length ?ls])\<rparr>)
     = Some \<lparr>headers = [''Block Size 4'', ''10''],
             table.data = [[''4'', ''10''], [''8'', ''5'']]\<rparr>"
    by code_simp
  show ?thesis
    using a e t r by simp
qed

text \<open>
  Claim C3, amended. Every later line that contains \<open>Block Size\<close> replaces the headers, so
  the headers of a table that \<open>parseReport\<close> returns are the cells of the LAST line
  containing \<open>Block Size\<close> from the first marker line on, trimmed and split on the tab.
\<close>
theorem last_block_size_line_is_header:
  assumes "parseReport text = Some t"
  shows "filter (\<lambda>l. includesStr l ''Block Size'')
           (dropWhile (\<lambda>l. trim l \<noteq> ''Results:'') (split (CHR 0x0A) text)) \<noteq> []
       \<and> headers t = split (CHR 0x09) (trim (last
           (filter (\<lambda>l. includesStr l ''Block Size'')
              (dropWhile (\<lambda>l. trim l \<noteq> ''Results:'') (split (CHR 0x0A) text)))))"
proof -
  let ?st = "scanLines (split (CHR 0x0A) text)"
  have h: "headerLine ?st = Some (headers t)"
    using assms by (auto simp: parseReport_def Let_def split: option.splits if_splits)
  have "headerLine ?st =
     (if filter (\<lambda>l. includesStr l ''Block Size'')
           (dropWhile (\<lambda>l. trim l \<noteq> ''Results:'') (split (CHR 0x0A) text)) = [] then None
      else Some (split (CHR 0x09) (trim (last (filter (\<lambda>l. includesStr l ''Block Size'')
           (dropWhile (\<lambda>l. trim l \<noteq> ''Results:'') (split (CHR 0x0A) text)))))))"
    unfolding scanLines_def using scan_header [of scanInit "split (CHR 0x0A) text"]
    by (simp add: scanInit_def)
  then show ?thesis
    using h by (auto split: if_splits)
qed

theorem last_block_size_line_is_header_witness:
  "parseReport (''Results:'' @ [CHR 0x0A] @ ''Block Size'' @ [CHR 0x09] @ ''Used'' @ [CHR 0x0A]
      @ ''4'' @ [CHR 0x09] @ ''10'' @ [CHR 0x0A]
      @ ''Block Size'' @ [CHR 0x09] @ ''Free'' @ [CHR 0x0A] @ ''8'' @ [CHR 0x09] @ ''5'')
     = Some \<lparr>headers = [''Block Size'', ''Free''],
             table.data = [[''4'', ''10''], [''8'', ''5'']]\<rparr>
   \<and> last (filter (\<lambda>l. includesStr l ''Block Size'')
         (dropWhile (\<lambda>l. trim l \<noteq> ''Results:'') (split (CHR 0x0A)
            (''Results:'' @ [CHR 0x0A] @ ''Block Size'' @ [CHR 0x09] @ ''Used'' @ [CHR 0x0A]
             @ ''4'' @ [CHR 0x09] @ ''10'' @ [CHR 0x0A]
             @ ''Block Size'' @ [CHR 0x09] @ ''Free'' @ [CHR 0x0A] @ ''8'' @ [CHR 0x09] @ ''5''))))
     = ''Block Size'' @ [CHR 0x09] @ ''Free''
   \<and> headers \<lparr>headers = [''Block Size'', ''Free''],
               table.data = [[''4'', ''10''], [''8'', ''5'']]\<rparr>
     = split (CHR 0x09) (trim (''Block Size'' @ [CHR 0x09] @ ''Free''))"
proof -
  have e: "parseReport (''Results:'' @ [CHR 0x0A] @ ''Block Size'' @ [CHR 0x09] @ ''Used'' @ [CHR 0x0A]
      @ ''4'' @ [CHR 0x09] @ ''10'' @ [CHR 0x0A]
      @ ''Block Size'' @ [CHR 0x09] @ ''Free'' @ [CHR 0x0A] @ ''8'' @ [CHR 0x09] @ ''5'')
     = Some \<lparr>headers = [''Block Size'', ''Free''],
             table.data = [[''4'', ''10''], [''8'', ''5'']]\<rparr>"
    by (simp add: parseReport_def scanLines_def scanLine_def scanInit_def trim_def isWhiteSpace_def)
  have l: "last (filter (\<lambda>l. includesStr l ''Block Size'')
         (dropWhile (\<lambda>l. trim l \<noteq> ''Results:'') (split (CHR 0x0A)
            (''Results:'' @ [CHR 0x0A] @ ''Block Size'' @ [CHR 0x09] @ ''Used'' @ [CHR 0x0A]
             @ ''4'' @ [CHR 0x09] @ ''10'' @ [CHR 0x0A]
             @ ''Block Size'' @ [CHR 0x09] @ ''Free'' @ [CHR 0x0A] @ ''8'' @ [CHR 0x09] @ ''5''))))
     = ''Block Size'' @ [CHR 0x09] @ ''Free''"
    by (simp add: trim_def isWhiteSpace_def)
  show ?thesis
    using last_block_size_line_is_header [OF e] e l by simp
qed

text \<open>
  The claim as stated fails on a report with two such lines: the second one wins, and the
  row accepted under the first header stays in the table.
\<close>
theorem first_header_counterexample:
  "parseReport (''Results:'' @ [CHR 0x0A] @ ''Block Size'' @ [CHR 0x09] @ ''Count'' @ [CHR 0x0A]
      @ ''4'' @ [CHR 0x09] @ ''10'' @ [CHR 0x0A]
      @ ''Block Size'' @ [CHR 0x09] @ ''Used'' @ [CHR 0x09] @ ''Free'')
   = Some \<lparr>headers = [''Block Size'', ''Used'', ''Free''], table.data = [[''4'', ''10'']]\<rparr>"
  by (simp add: parseReport_def scanLines_def scanLine_def scanInit_def trim_def isWhiteSpace_def)

text \<open>
  Claim C6, amended. \<open>parseReport\<close> returns the accepted rows in line order, under the
  header in force at the end of the report, and nothing when there is no header or no
  accepted row. So a line is a data row exactly when it comes after a marker line and a
  header line, is not a marker line, does not contain \<open>Block Size\<close>, is not blank, and
  the tab-split cell count of its trimmed text equals that of the header in force at
  that line; a line with another cell count is dropped and the other rows stay. The
  report of the claim gives the table of the claim.
\<close>
theorem rows_filtered_by_cell_count:
  "parseReport text =
     (case headerInForce (split (CHR 0x0A) text) of
        None \<Rightarrow> None
      | Some h \<Rightarrow>
          if acceptedRows (split (CHR 0x0A) text) = [] then None
          else Some \<lparr>headers = h, table.data = acceptedRows (split (CHR 0x0A) text)\<rparr>)
   \<and> parseReport (''Results:'' @ [CHR 0x0A] @ ''Block Size'' @ [CHR 0x09] @ ''Count'' @ [CHR 0x0A]
        @ ''4'' @ [CHR 0x09] @ ''10'' @ [CHR 0x0A] @ ''8'' @ [CHR 0x09] @ ''5'')
     = Some \<lparr>headers = [''Block Size'', ''Count''], table.data = [[''4'', ''10''], [''8'', ''5'']]\<rparr>"
proof
  show "parseReport text =
     (case headerInForce (split (CHR 0x0A) text) of
        None \<Rightarrow> None
      | Some h \<Rightarrow>
          if acceptedRows (split (CHR 0x0A) text) = [] then None
          else Some \<lparr>headers = h, table.data = acceptedRows (split (CHR 0x0A) text)\<rparr>)"
    by (rule parseReport_spec)
  show "parseReport (''Results:'' @ [CHR 0x0A] @ ''Block Size'' @ [CHR 0x09] @ ''Count'' @ [CHR 0x0A]
        @ ''4'' @ [CHR 0x09] @ ''10'' @ [CHR 0x0A] @ ''8'' @ [CHR 0x09] @ ''5'')
     = Some \<lparr>headers = [''Block Size'', ''Count''], table.data = [[''4'', ''10''], [''8'', ''5'']]\<rparr>"
    by (simp add: parseReport_def scanLines_def scanLine_def scanInit_def trim_def isWhiteSpace_def)
qed

theorem rows_filtered_by_cell_count_witness:
  "acceptedRows (split (CHR 0x0A)
      (''Block Size'' @ [CHR 0x09] @ ''x'' @ [CHR 0x0A] @ ''1'' @ [CHR 0x09] @ ''2'' @ [CHR 0x0A]
       @ ''Results:'' @ [CHR 0x0A] @ ''0'' @ [CHR 0x09] @ ''0'' @ [CHR 0x0A]
       @ ''Block Size'' @ [CHR 0x09] @ ''Used'' @ [CHR 0x0A]
       @ ''4'' @ [CHR 0x09] @ ''10'' @ [CHR 0x0A] @ [CHR 0x0A] @ ''bad'' @ [CHR 0x0A]
       @ ''Block Size'' @ [CHR 0x09] @ ''Used'' @ [CHR 0x09] @ ''Free'' @ [CHR 0x0A]
       @ ''8'' @ [CHR 0x09] @ ''5'' @ [CHR 0x09] @ ''3'' @ [CHR 0x0D] @ [CHR 0x0A]
       @ ''9'' @ [CHR 0x09] @ ''9''))
     = [[''4'', ''10''], [''8'', ''5'', ''3'']]
   \<and> parseReport
      (''Block Size'' @ [CHR 0x09] @ ''x'' @ [CHR 0x0A] @ ''1'' @ [CHR 0x09] @ ''2'' @ [CHR 0x0A]
       @ ''Results:'' @ [CHR 0x0A] @ ''0'' @ [CHR 0x09] @ ''0'' @ [CHR 0x0A]
       @ ''Block Size'' @ [CHR 0x09] @ ''Used'' @ [CHR 0x0A]
       @ ''4'' @ [CHR 0x09] @ ''10'' @ [CHR 0x0A] @ [CHR 0x0A] @ ''bad'' @ [CHR 0x0A]
       @ ''Block Size'' @ [CHR 0x09] @ ''Used'' @ [CHR 0x09] @ ''Free'' @ [CHR 0x0A]
       @ ''8'' @ [CHR 0x09] @ ''5'' @ [CHR 0x09] @ ''3'' @ [CHR 0x0D] @ [CHR 0x0A]
       @ ''9'' @ [CHR 0x09] @ ''9'')
     = Some \<lparr>headers = [''Block Size'', ''Used'', ''Free''],
             table.data = [[''4'', ''10''], [''8'', ''5'', ''3'']]\<rparr>"
proof -
  let ?t = "''Block Size'' @ [CHR 0x09] @ ''x'' @ [CHR 0x0A] @ ''1'' @ [CHR 0x09] @ ''2'' @ [CHR 0x0A]
       @ ''Results:'' @ [CHR 0x0A] @ ''0'' @ [CHR 0x09] @ ''0'' @ [CHR 0x0A]
       @ ''Block Size'' @ [CHR 0x09] @ ''Used'' @ [CHR 0x0A]
       @ ''4'' @ [CHR 0x09] @ ''10'' @ [CHR 0x0A] @ [CHR 0x0A] @ ''bad'' @ [CHR 0x0A]
       @ ''Block Size'' @ [CHR 0x09] @ ''Used'' @ [CHR 0x09] @ ''Free'' @ [CHR 0x0A]
       @ ''8'' @ [CHR 0x09] @ ''5'' @ [CHR 0x09] @ ''3'' @ [CHR 0x0D] @ [CHR 0x0A]
       @ ''9'' @ [CHR 0x09] @ ''9''"
  have h: "headerInForce (split (CHR 0x0A) ?t) = Some [''Block Size'', ''Used'', ''Free'']"
    by code_simp
  have r: "acceptedRows (split (CHR 0x0A) ?t) = [[''4'', ''10''], [''8'', ''5'', ''3'']]"
    by code_simp
  show ?thesis
    using rows_filtered_by_cell_count [of ?t, THEN conjunct1] r by (simp only: h) simp
qed

text \<open>
  The claim as stated fails on this report whichever header it means. The second line
  containing \<open>Block Size\<close> has the two cells of the first header and is not a row. The
  third such line becomes the header of the table, with three cells: the row \<open>4 10\<close>,
  accepted under the first header, stays in the table with two cells, and \<open>8 5\<close>, which
  has the two cells of the first header, is dropped. The last line has four cells when
  split as it stands and is accepted, since its trimmed text has three.
\<close>
theorem cell_count_counterexample:
  "parseReport (''Results:'' @ [CHR 0x0A] @ ''Block Size'' @ [CHR 0x09] @ ''Count'' @ [CHR 0x0A]
      @ ''4'' @ [CHR 0x09] @ ''10'' @ [CHR 0x0A]
      @ ''Block Size 4'' @ [CHR 0x09] @ ''10'' @ [CHR 0x0A]
      @ ''Block Size'' @ [CHR 0x09] @ ''Used'' @ [CHR 0x09] @ ''Free'' @ [CHR 0x0A]
      @ ''8'' @ [CHR 0x09] @ ''5'' @ [CHR 0x0A]
      @ ''16'' @ [CHR 0x09] @ ''2'' @ [CHR 0x09] @ ''1'' @ [CHR 0x09])
     = Some \<lparr>headers = [''Block Size'', ''Used'', ''Free''],
             table.data = [[''4'', ''10''], [''16'', ''2'', ''1'']]\<rparr>
   \<and> length (split (CHR 0x09) (''Block Size 4'' @ [CHR 0x09] @ ''10'')) = 2
   \<and> length (split (CHR 0x09) (''Block Size'' @ [CHR 0x09] @ ''Count'')) = 2
   \<and> length (split (CHR 0x09) (''8'' @ [CHR 0x09] @ ''5'')) = 2
   \<and> length (split (CHR 0x09) (''16'' @ [CHR 0x09] @ ''2'' @ [CHR 0x09] @ ''1'' @ [CHR 0x09])) = 4"
  by (simp add: parseReport_def scanLines_def scanLine_def scanInit_def trim_def isWhiteSpace_def)

section \<open>Properties of the submission\<close>

lemma usageCsv_valid:
  "validateCSVFiles [Some 1] [Some usageCsv] =
     \<lparr>valid = True,
      datasets = [\<lparr>name = ''usage'',
         data = [[(''Day No.'', ''1''), (''Number of entries'', ''5'')], [(''Day No.'', ''2'')]],
         entry_size = Some 1\<rparr>],
      setError = None, papaCalls = [0]\<rparr>"
  by code_simp

lemma parseReport_no_marker:
  assumes "\<forall>l\<in>set (split (CHR 0x0A) text). trim l \<noteq> ''Results:''"
  shows "parseReport text = None"
proof -
  have "scanLines (split (CHR 0x0A) text) = scanInit"
    unfolding scanLines_def using assms by (intro scan_outside) (simp_all add: scanInit_def)
  then show ?thesis
    by (simp add: parseReport_def scanInit_def)
qed

lemma handleSubmit_success:
  assumes "valid (validateCSVFiles es files)"
    and "settlesAt (server (datasets (validateCSVFiles es files))) < timeoutMs + lateness tm"
    and "outcome (server (datasets (validateCSVFiles es files))) = Resolved response"
    and "ok response" and "json response = Inr (Some result)"
  shows "handleSubmit pf tm server es files =
     \<lparr>isLoading = False, error = None, apiResponse = Some result,
      parsedResults = parseOutput (buddy_allocation_output result)\<rparr>"
  using assms by (simp add: handleSubmit_def fetch_def Let_def)

text \<open>
  Claim C7, amended. A report without a line whose trimmed text is \<open>Results:\<close> has no
  table. In general \<open>parseReport\<close> returns no table exactly when no line of the report is
  accepted as a row, each line being measured against the header in force at that line and
  not against the first or the last header of the report. A call that succeeds with a
  report without table ends with the response stored, no table and \<open>error\<close> still
  \<open>null\<close>.
\<close>
theorem no_table_is_not_an_error:
  "((\<forall>l\<in>set (split (CHR 0x0A) text1). trim l \<noteq> ''Results:'') \<longrightarrow> parseReport text1 = None)
   \<and> (parseReport text2 = None) =
       (\<forall>i<length (split (CHR 0x0A) text2).
           \<not> acceptedAsRow (take i (split (CHR 0x0A) text2)) (split (CHR 0x0A) text2 ! i))
   \<and> (valid (validateCSVFiles es files)
       \<and> settlesAt (server (datasets (validateCSVFiles es files))) < timeoutMs + lateness tm
       \<and> outcome (server (datasets (validateCSVFiles es files))) = Resolved response
       \<and> ok response \<and> json response = Inr (Some result)
       \<and> buddy_allocation_output result = Text text3 \<and> parseReport text3 = None
       \<longrightarrow> handleSubmit pf tm server es files =
             \<lparr>isLoading = False, error = None, apiResponse = Some result, parsedResults = None\<rparr>)"
proof (intro conjI impI)
  assume "\<forall>l\<in>set (split (CHR 0x0A) text1). trim l \<noteq> ''Results:''"
  then show "parseReport text1 = None" by (rule parseReport_no_marker)
next
  show "(parseReport text2 = None) =
       (\<forall>i<length (split (CHR 0x0A) text2).
           \<not> acceptedAsRow (take i (split (CHR 0x0A) text2)) (split (CHR 0x0A) text2 ! i))"
    by (rule parseReport_None)
next
  assume a: "valid (validateCSVFiles es files)
       \<and> settlesAt (server (datasets (validateCSVFiles es files))) < timeoutMs + lateness tm
       \<and> outcome (server (datasets (validateCSVFiles es files))) = Resolved response
       \<and> ok response \<and> json response = Inr (Some result)
       \<and> buddy_allocation_output result = Text text3 \<and> parseReport text3 = None"
  then show "handleSubmit pf tm server es files =
             \<lparr>isLoading = False, error = None, apiResponse = Some result, parsedResults = None\<rparr>"
    using handleSubmit_success [of es files server tm response result pf]
    by (simp add: parseOutput_def)
qed

theorem no_table_is_not_an_error_witness:
  "split (CHR 0x0A) (''Allocation failed'' @ [CHR 0x0A] @ ''Block Size'' @ [CHR 0x09] @ ''Count'')
     = [''Allocation failed'', ''Block Size'' @ [CHR 0x09] @ ''Count'']
   \<and> parseReport (''Allocation failed'' @ [CHR 0x0A] @ ''Block Size'' @ [CHR 0x09] @ ''Count'') = None
   \<and> split (CHR 0x0A) (''1'' @ [CHR 0x09] @ ''2'' @ [CHR 0x0A] @ ''Results:'' @ [CHR 0x0A]
           @ ''Block Size'' @ [CHR 0x09] @ ''Count''
           @ [CHR 0x0A] @ ''4'' @ [CHR 0x09] @ ''10'' @ [CHR 0x09] @ ''7'' @ [CHR 0x0A] @ ''done'')
     = [''1'' @ [CHR 0x09] @ ''2'', ''Results:'', ''Block Size'' @ [CHR 0x09] @ ''Count'',
        ''4'' @ [CHR 0x09] @ ''10'' @ [CHR 0x09] @ ''7'', ''done'']
   \<and> parseReport (''1'' @ [CHR 0x09] @ ''2'' @ [CHR 0x0A] @ ''Results:'' @ [CHR 0x0A]
           @ ''Block Size'' @ [CHR 0x09] @ ''Count''
           @ [CHR 0x0A] @ ''4'' @ [CHR 0x09] @ ''10'' @ [CHR 0x09] @ ''7'' @ [CHR 0x0A] @ ''done'') = None
   \<and> valid (validateCSVFiles [Some 1] [Some usageCsv])
   \<and> handleSubmit chromium punctual (replyWith 42000 (Resolved okResponse)) [Some 1] [Some usageCsv]
      = \<lparr>isLoading = False, error = None,
         apiResponse = Some \<lparr>buddy_allocation_output = Text ''Allocation failed''\<rparr>,
         parsedResults = None\<rparr>"
proof -
  let ?t1 = "''Allocation failed'' @ [CHR 0x0A] @ ''Block Size'' @ [CHR 0x09] @ ''Count''"
  let ?t2 = "''1'' @ [CHR 0x09] @ ''2'' @ [CHR 0x0A] @ ''Results:'' @ [CHR 0x0A]
           @ ''Block Size'' @ [CHR 0x09] @ ''Count''
           @ [CHR 0x0A] @ ''4'' @ [CHR 0x09] @ ''10'' @ [CHR 0x09] @ ''7'' @ [CHR 0x0A] @ ''done''"
  have a: "\<forall>l\<in>set (split (CHR 0x0A) ?t1). trim l \<noteq> ''Results:''"
    by (simp add: trim_def isWhiteSpace_def)
  have b: "\<forall>i<length (split (CHR 0x0A) ?t2).
           \<not> acceptedAsRow (take i (split (CHR 0x0A) ?t2)) (split (CHR 0x0A) ?t2 ! i)"
    unfolding acceptedRows_Nil [symmetric] by code_simp
  have c: "parseReport ''Allocation failed'' = None"
    by (simp add: parseReport_def scanLines_def scanLine_def scanInit_def trim_def isWhiteSpace_def)
  have v: "valid (validateCSVFiles [Some 1] [Some usageCsv])"
    by (simp add: usageCsv_valid)
  have s: "split (CHR 0x0A) ?t1 = [''Allocation failed'', ''Block Size'' @ [CHR 0x09] @ ''Count'']"
    "split (CHR 0x0A) ?t2 = [''1'' @ [CHR 0x09] @ ''2'', ''Results:'', ''Block Size'' @ [CHR 0x09] @ ''Count'',
        ''4'' @ [CHR 0x09] @ ''10'' @ [CHR 0x09] @ ''7'', ''done'']"
    by simp_all
  note t = no_table_is_not_an_error [of ?t1 ?t2 "[Some 1]" "[Some usageCsv]"
        "replyWith 42000 (Resolved okResponse)" punctual okResponse
        "\<lparr>buddy_allocation_output = Text ''Allocation failed''\<rparr>"
        "''Allocation failed''" chromium]
  have 1: "parseReport ?t1 = None" using t a by blast
  have 2: "parseReport ?t2 = None" using t b by blast
  have 3: "handleSubmit chromium punctual (replyWith 42000 (Resolved okResponse)) [Some 1] [Some usageCsv]
      = \<lparr>isLoading = False, error = None,
         apiResponse = Some \<lparr>buddy_allocation_output = Text ''Allocation failed''\<rparr>,
         parsedResults = None\<rparr>"
    using t c v by (simp add: replyWith_def timeoutMs_def okResponse_def punctual_def)
  show ?thesis
    using 1 2 3 v s by simp
qed

text \<open>
  The claim as stated fails on a report with several header lines: the only row has two
  cells, the first header line three and the header of the returned table four, and yet a
  table is returned, because the row was accepted under the second header line.
\<close>
theorem no_matching_row_counterexample:
  "parseReport (''Results:'' @ [CHR 0x0A] @ ''Block Size'' @ [CHR 0x09] @ ''A'' @ [CHR 0x09] @ ''B''
      @ [CHR 0x0A] @ ''Block Size'' @ [CHR 0x09] @ ''C'' @ [CHR 0x0A] @ ''7'' @ [CHR 0x09] @ ''8''
      @ [CHR 0x0A] @ ''Block Size'' @ [CHR 0x09] @ ''D'' @ [CHR 0x09] @ ''E'' @ [CHR 0x09] @ ''F'')
     = Some \<lparr>headers = [''Block Size'', ''D'', ''E'', ''F''], table.data = [[''7'', ''8'']]\<rparr>
   \<and> length (split (CHR 0x09) (''7'' @ [CHR 0x09] @ ''8'')) = 2
   \<and> length (split (CHR 0x09) (''Block Size'' @ [CHR 0x09] @ ''A'' @ [CHR 0x09] @ ''B'')) = 3
   \<and> length (split (CHR 0x09)
        (''Block Size'' @ [CHR 0x09] @ ''D'' @ [CHR 0x09] @ ''E'' @ [CHR 0x09] @ ''F'')) = 4"
  by (simp add: parseReport_def scanLines_def scanLine_def scanInit_def trim_def isWhiteSpace_def)

section \<open>Properties of the validation\<close>

lemma single_slot_valid:
  "valid (validateLoop es j [s] ds0 calls0) \<Longrightarrow>
   \<exists>f rows. s = Some f \<and> endsWith (toLowerCase (File.name f)) ''.csv'' \<and> papa f = Inr rows
     \<and> rows \<noteq> [] \<and> hasKey ''Day No.'' (hd rows) \<and> hasKey ''Number of entries'' (hd rows)"
  by (cases s) (auto simp: invalid_def split: if_splits sum.splits)

lemma slot_valid_indep:
  "valid (validateLoop es j [s] ds0 calls0) \<Longrightarrow> valid (validateLoop es' i [s] ds calls)"
  by (cases s) (auto simp: invalid_def split: if_splits sum.splits)

lemma loop_accept:
  assumes "valid (validateCSVFiles es [s])"
  shows "validateLoop es i (s # rest) ds calls =
           validateLoop es (Suc i) rest (ds @ [pushed es i s]) (calls @ [i])"
proof -
  obtain f rows where "s = Some f" "endsWith (toLowerCase (File.name f)) ''.csv''"
      "papa f = Inr rows" "rows \<noteq> []" "hasKey ''Day No.'' (hd rows)"
      "hasKey ''Number of entries'' (hd rows)"
    using single_slot_valid assms unfolding validateCSVFiles_def by blast
  then show ?thesis
    by (simp add: pushed_def)
qed

lemma loop_reject:
  assumes "\<not> valid (validateCSVFiles es [s])"
  shows "validateLoop es i (s # rest) ds calls =
           \<lparr>valid = False, datasets = [], setError = setError (validateCSVFiles es [s]),
            papaCalls = calls @ map (\<lambda>_. i) (papaCalls (validateCSVFiles es [s]))\<rparr>"
  using assms unfolding validateCSVFiles_def
  by (cases s) (auto simp: invalid_def split: if_splits sum.splits)

lemma loop_prefix:
  assumes "\<forall>s\<in>set pre. valid (validateCSVFiles es [s])"
  shows "validateLoop es i (pre @ rest) ds calls =
           validateLoop es (i + length pre) rest
             (ds @ map (\<lambda>k. pushed es (i + k) (pre ! k)) [0..<length pre])
             (calls @ [i..<i + length pre])"
  using assms
proof (induction pre arbitrary: i ds calls)
  case Nil
  then show ?case by simp
next
  case (Cons s pre)
  have s: "valid (validateCSVFiles es [s])" and pre: "\<forall>s\<in>set pre. valid (validateCSVFiles es [s])"
    using Cons.prems by simp_all
  have m: "map (\<lambda>k. pushed es (i + k) ((s # pre) ! k)) [0..<length (s # pre)] =
      pushed es i s # map (\<lambda>k. pushed es (Suc i + k) (pre ! k)) [0..<length pre]"
    by (simp add: upt_conv_Cons map_Suc_upt [symmetric] del: upt_Suc)
  have u: "[i..<i + length (s # pre)] = i # [Suc i..<Suc i + length pre]"
    by (simp add: upt_conv_Cons del: upt_Suc)
  show ?case
    using Cons.IH [OF pre, of "Suc i" "ds @ [pushed es i s]" "calls @ [i]"]
    by (simp only: append_Cons loop_accept [OF s] m u) simp
qed

lemma validate_all_accepted:
  assumes "\<forall>s\<in>set files. valid (validateCSVFiles es [s])"
  shows "validateCSVFiles es files =
           \<lparr>valid = True, datasets = map (\<lambda>k. pushed es k (files ! k)) [0..<length files],
            setError = None, papaCalls = [0..<length files]\<rparr>"
  using loop_prefix [OF assms, of 0 "[]" "[]" "[]"] by (simp add: validateCSVFiles_def)

lemma validate_first_rejected:
  assumes "\<forall>s\<in>set pre. valid (validateCSVFiles es [s])" and "\<not> valid (validateCSVFiles es [bad])"
  shows "validateCSVFiles es (pre @ bad # post) =
           \<lparr>valid = False, datasets = [], setError = setError (validateCSVFiles es [bad]),
            papaCalls = [0..<length pre] @
              map (\<lambda>_. length pre) (papaCalls (validateCSVFiles es [bad]))\<rparr>"
proof -
  have "validateCSVFiles es (pre @ bad # post) =
      validateLoop es (0 + length pre) (bad # post)
        ([] @ map (\<lambda>k. pushed es (0 + k) (pre ! k)) [0..<length pre])
        ([] @ [0..<0 + length pre])"
    unfolding validateCSVFiles_def by (rule loop_prefix [OF assms(1)])
  also have "\<dots> = \<lparr>valid = False, datasets = [], setError = setError (validateCSVFiles es [bad]),
      papaCalls = ([] @ [0..<0 + length pre]) @
        map (\<lambda>_. 0 + length pre) (papaCalls (validateCSVFiles es [bad]))\<rparr>"
    by (rule loop_reject [OF assms(2)])
  finally show ?thesis by simp
qed

lemma valid_all_slots:
  assumes "valid (validateCSVFiles es files)"
  shows "\<forall>s\<in>set files. valid (validateCSVFiles es [s])"
proof (rule ccontr)
  assume "\<not> ?thesis"
  then have "\<exists>s\<in>set files. \<not> valid (validateCSVFiles es [s])" by simp
  then obtain pre bad post where "files = pre @ bad # post"
      "\<not> valid (validateCSVFiles es [bad])" "\<forall>s\<in>set pre. \<not> \<not> valid (validateCSVFiles es [s])"
    using split_list_first_prop [of files "\<lambda>s. \<not> valid (validateCSVFiles es [s])"] by blast
  then have "\<not> valid (validateCSVFiles es files)"
    using validate_first_rejected [of pre es bad post] by simp
  then show False using assms by simp
qed

lemma single_papaCalls: "papaCalls (validateCSVFiles es [s]) = [] \<or> papaCalls (validateCSVFiles es [s]) = [0]"
  unfolding validateCSVFiles_def
  by (cases s) (auto simp: invalid_def split: if_splits sum.splits)

lemma nth_pushed:
  assumes "\<forall>s\<in>set files. valid (validateCSVFiles es [s])" and "i < length files"
  shows "\<exists>f rows. files ! i = Some f \<and> papa f = Inr rows
     \<and> endsWith (toLowerCase (File.name f)) ''.csv''
     \<and> rows \<noteq> [] \<and> hasKey ''Day No.'' (hd rows) \<and> hasKey ''Number of entries'' (hd rows)
     \<and> datasets (validateCSVFiles es files) ! i =
         \<lparr>name = stripExtension (File.name f), data = rows, entry_size = arrayGet es i\<rparr>"
proof -
  have "valid (validateCSVFiles es [files ! i])"
    using assms by simp
  then obtain f rows where f: "files ! i = Some f" "endsWith (toLowerCase (File.name f)) ''.csv''"
      "papa f = Inr rows" "rows \<noteq> []" "hasKey ''Day No.'' (hd rows)"
      "hasKey ''Number of entries'' (hd rows)"
    using single_slot_valid unfolding validateCSVFiles_def by blast
  have "datasets (validateCSVFiles es files) ! i = pushed es i (files ! i)"
    using assms(2) by (simp add: validate_all_accepted [OF assms(1)])
  then show ?thesis
    using f by (simp add: pushed_def)
qed

text \<open>
  Claim C8. Validation succeeds exactly when every slot on its own validates. On success
  the files were handed to the tokenizer in slot order and the dataset at index \<open>i\<close>
  comes from the file in slot \<open>i\<close>. When \<open>bad\<close> is the first slot that fails, the result
  is that slot's failure with no datasets, whatever follows it: the slots before it were
  tokenized in order, and no slot after it was.
\<close>
theorem validate_in_slot_order:
  "valid (validateCSVFiles es files) = (\<forall>s\<in>set files. valid (validateCSVFiles es [s]))
   \<and> (valid (validateCSVFiles es files) \<longrightarrow>
        length (datasets (validateCSVFiles es files)) = length files
        \<and> papaCalls (validateCSVFiles es files) = [0..<length files]
        \<and> (\<forall>i<length files. \<exists>f rows. files ! i = Some f \<and> papa f = Inr rows
              \<and> datasets (validateCSVFiles es files) ! i =
                  \<lparr>name = stripExtension (File.name f), data = rows,
                   entry_size = arrayGet es i\<rparr>))
   \<and> ((\<forall>s\<in>set pre. valid (validateCSVFiles es [s])) \<and> \<not> valid (validateCSVFiles es [bad]) \<longrightarrow>
        validateCSVFiles es (pre @ bad # post) =
          \<lparr>valid = False, datasets = [], setError = setError (validateCSVFiles es [bad]),
           papaCalls = [0..<length pre] @
             map (\<lambda>_. length pre) (papaCalls (validateCSVFiles es [bad]))\<rparr>)"
proof (intro conjI impI allI)
  show "valid (validateCSVFiles es files) = (\<forall>s\<in>set files. valid (validateCSVFiles es [s]))"
    using valid_all_slots [of es files] validate_all_accepted [of files es] by auto
next
  assume v: "valid (validateCSVFiles es files)"
  then have a: "\<forall>s\<in>set files. valid (validateCSVFiles es [s])" by (rule valid_all_slots)
  show "length (datasets (validateCSVFiles es files)) = length files"
    by (simp add: validate_all_accepted [OF a])
  show "papaCalls (validateCSVFiles es files) = [0..<length files]"
    by (simp add: validate_all_accepted [OF a])
  fix i assume "i < length files"
  then show "\<exists>f rows. files ! i = Some f \<and> papa f = Inr rows
              \<and> datasets (validateCSVFiles es files) ! i =
                  \<lparr>name = stripExtension (File.name f), data = rows,
                   entry_size = arrayGet es i\<rparr>"
    using nth_pushed [OF a] by blast
next
  assume "(\<forall>s\<in>set pre. valid (validateCSVFiles es [s])) \<and> \<not> valid (validateCSVFiles es [bad])"
  then show "validateCSVFiles es (pre @ bad # post) =
          \<lparr>valid = False, datasets = [], setError = setError (validateCSVFiles es [bad]),
           papaCalls = [0..<length pre] @
             map (\<lambda>_. length pre) (papaCalls (validateCSVFiles es [bad]))\<rparr>"
    using validate_first_rejected by blast
qed

lemma eval_two_valid:
  "validateCSVFiles [Some 1, Some 4] [Some usageCsv, Some loadCsv] =
     \<lparr>valid = True,
      datasets = [\<lparr>name = ''usage'',
         data = [[(''Day No.'', ''1''), (''Number of entries'', ''5'')], [(''Day No.'', ''2'')]],
         entry_size = Some 1\<rparr>,
        \<lparr>name = ''load.v2'', data = [[(''Day No.'', ''1''), (''Number of entries'', ''9'')]],
         entry_size = Some 4\<rparr>],
      setError = None, papaCalls = [0, 1]\<rparr>"
  by code_simp

lemma eval_singles:
  "valid (validateCSVFiles [Some 1, Some 4] [Some usageCsv])"
  "valid (validateCSVFiles [Some 1, Some 4] [Some loadCsv])"
  "validateCSVFiles [Some 1, Some 4] [Some notesTxt] =
     \<lparr>valid = False, datasets = [], setError = Some ''File notes.txt is not a CSV file.'',
      papaCalls = []\<rparr>"
  "validateCSVFiles [Some 1, Some 4] [None] =
     \<lparr>valid = False, datasets = [], setError = Some ''Please upload all required CSV files.'',
      papaCalls = []\<rparr>"
  by code_simp+

theorem validate_in_slot_order_witness:
  "valid (validateCSVFiles [Some 1, Some 4] [Some usageCsv, Some loadCsv])
   \<and> map name (datasets (validateCSVFiles [Some 1, Some 4] [Some usageCsv, Some loadCsv]))
       = [''usage'', ''load.v2'']
   \<and> valid (validateCSVFiles [Some 1, Some 4] [Some usageCsv])
   \<and> \<not> valid (validateCSVFiles [Some 1, Some 4] [Some notesTxt])
   \<and> validateCSVFiles [Some 1, Some 4] ([Some usageCsv] @ Some notesTxt # [Some loadCsv, None]) =
       \<lparr>valid = False, datasets = [], setError = Some ''File notes.txt is not a CSV file.'',
        papaCalls = [0]\<rparr>"
  using validate_in_slot_order [of "[Some 1, Some 4]" "[Some usageCsv, Some loadCsv]"
      "[Some usageCsv]" "Some notesTxt" "[Some loadCsv, None]"]
  by (simp add: eval_two_valid eval_singles)

text \<open>
  Claim C5, amended. Every dataset of a successful validation has at least one row, its
  FIRST row has the keys \<open>Day No.\<close> and \<open>Number of entries\<close>, and its name is the file
  name without its last four characters, which are \<open>.csv\<close> in some capitalisation. The
  rows are those the tokenizer gave for the file in the same slot.
\<close>
theorem dataset_first_row_has_columns:
  assumes "valid (validateCSVFiles es files)" and "i < length files"
  shows "\<exists>f. files ! i = Some f
     \<and> papa f = Inr (data (datasets (validateCSVFiles es files) ! i))
     \<and> data (datasets (validateCSVFiles es files) ! i) \<noteq> []
     \<and> hasKey ''Day No.'' (hd (data (datasets (validateCSVFiles es files) ! i)))
     \<and> hasKey ''Number of entries'' (hd (data (datasets (validateCSVFiles es files) ! i)))
     \<and> name (datasets (validateCSVFiles es files) ! i) =
         take (length (File.name f) - 4) (File.name f)
     \<and> toLowerCase (drop (length (File.name f) - 4) (File.name f)) = ''.csv''"
proof -
  have a: "\<forall>s\<in>set files. valid (validateCSVFiles es [s])"
    using assms(1) by (rule valid_all_slots)
  obtain f rows where f: "files ! i = Some f" "papa f = Inr rows"
      "endsWith (toLowerCase (File.name f)) ''.csv''"
      "rows \<noteq> []" "hasKey ''Day No.'' (hd rows)" "hasKey ''Number of entries'' (hd rows)"
      "datasets (validateCSVFiles es files) ! i =
         \<lparr>name = stripExtension (File.name f), data = rows, entry_size = arrayGet es i\<rparr>"
    using nth_pushed [OF a assms(2)] by blast
  show ?thesis
    using f stripExtension_csv [OF f(3)] by simp
qed

theorem dataset_first_row_has_columns_witness:
  "valid (validateCSVFiles [Some 1, Some 4] [Some usageCsv, Some loadCsv])
   \<and> (1::nat) < length [Some usageCsv, Some loadCsv]
   \<and> name (datasets (validateCSVFiles [Some 1, Some 4] [Some usageCsv, Some loadCsv]) ! 1) =
       take (length (File.name loadCsv) - 4) (File.name loadCsv)
   \<and> hasKey ''Number of entries''
       (hd (data (datasets (validateCSVFiles [Some 1, Some 4] [Some usageCsv, Some loadCsv]) ! 1)))"
  using dataset_first_row_has_columns [of "[Some 1, Some 4]" "[Some usageCsv, Some loadCsv]" 1]
  by (simp add: eval_two_valid)

text \<open>
  The claim as stated fails on the later rows, which validation never looks at.
\<close>
theorem every_row_counterexample:
  "valid (validateCSVFiles [Some 1] [Some usageCsv])
   \<and> \<not> hasKey ''Number of entries''
         (data (datasets (validateCSVFiles [Some 1] [Some usageCsv]) ! 0) ! 1)"
  by (simp add: usageCsv_valid hasKey_def)

lemma part001_setError: "setError (validateLoop_part001 i fs ds calls) = None"
  by (induction i fs ds calls rule: validateLoop_part001.induct) (auto split: sum.splits)

lemma part001_valid: "valid (validateLoop_part001 i fs ds calls) \<Longrightarrow> None \<notin> set fs"
  by (induction i fs ds calls rule: validateLoop_part001.induct) (auto split: sum.splits if_splits)

lemma part001_entry_size:
  "\<forall>d\<in>set ds. entry_size d = None \<Longrightarrow>
   \<forall>d\<in>set (datasets (validateLoop_part001 i fs ds calls)). entry_size d = None"
  by (induction i fs ds calls rule: validateLoop_part001.induct) (auto split: sum.splits)

text \<open>
  Claim C2, amended. When a slot is absent, validation fails with no datasets, and no file
  at or after the first absent slot is handed to the tokenizer. When every file before that
  slot validates, all of them have been tokenized, and the message is the fixed
  \<open>Please upload all required CSV files.\<close>, which names no slot. The variant of
  \<open>src/unnamed/part_001\<close> fails too and sets no message at all.
\<close>
theorem missing_slot_rejected:
  assumes "None \<in> set files"
  shows "\<not> valid (validateCSVFiles es files) \<and> datasets (validateCSVFiles es files) = []
     \<and> (\<forall>i\<in>set (papaCalls (validateCSVFiles es files)).
           i < length (takeWhile (\<lambda>s. s \<noteq> None) files))
     \<and> ((\<forall>s\<in>set (takeWhile (\<lambda>s. s \<noteq> None) files). valid (validateCSVFiles es [s])) \<longrightarrow>
          setError (validateCSVFiles es files) = Some ''Please upload all required CSV files.''
          \<and> papaCalls (validateCSVFiles es files) = [0..<length (takeWhile (\<lambda>s. s \<noteq> None) files)])
     \<and> \<not> valid (validateCSVFiles_part001 files)
     \<and> setError (validateCSVFiles_part001 files) = None"
proof -
  let ?pre = "takeWhile (\<lambda>s. s \<noteq> None) files"
  let ?post = "tl (dropWhile (\<lambda>s. s \<noteq> None) files)"
  have "dropWhile (\<lambda>s. s \<noteq> None) files \<noteq> []"
    using assms by (simp add: dropWhile_eq_Nil_conv)
  moreover have "hd (dropWhile (\<lambda>s. s \<noteq> None) files) = None"
    using hd_dropWhile [OF calculation] by simp
  ultimately have "dropWhile (\<lambda>s. s \<noteq> None) files = None # ?post"
    by (cases "dropWhile (\<lambda>s. s \<noteq> None) files") auto
  then have files: "files = ?pre @ None # ?post"
    using takeWhile_dropWhile_id [of "\<lambda>s. s \<noteq> None" files] by simp
  have none: "validateCSVFiles es [None] =
      \<lparr>valid = False, datasets = [], setError = Some ''Please upload all required CSV files.'',
       papaCalls = []\<rparr>"
    by (simp add: validateCSVFiles_def invalid_def)
  have p1: "\<not> valid (validateCSVFiles_part001 files)"
    using part001_valid [of 0 files "[]" "[]"] assms by (auto simp: validateCSVFiles_part001_def)
  have p2: "setError (validateCSVFiles_part001 files) = None"
    by (simp add: validateCSVFiles_part001_def part001_setError)
  show ?thesis
  proof (cases "\<forall>s\<in>set ?pre. valid (validateCSVFiles es [s])")
    case True
    have "validateCSVFiles es (?pre @ None # ?post) =
        \<lparr>valid = False, datasets = [], setError = setError (validateCSVFiles es [None]),
         papaCalls = [0..<length ?pre] @ map (\<lambda>_. length ?pre) (papaCalls (validateCSVFiles es [None]))\<rparr>"
      using True by (intro validate_first_rejected) (simp_all add: none)
    then have "validateCSVFiles es files =
        \<lparr>valid = False, datasets = [], setError = Some ''Please upload all required CSV files.'',
         papaCalls = [0..<length ?pre]\<rparr>"
      using files by (simp add: none)
    then show ?thesis using p1 p2 by simp
  next
    case False
    then obtain p bad q where pq: "?pre = p @ bad # q" "\<not> valid (validateCSVFiles es [bad])"
        "\<forall>s\<in>set p. \<not> \<not> valid (validateCSVFiles es [s])"
      using split_list_first_prop [of ?pre "\<lambda>s. \<not> valid (validateCSVFiles es [s])"] by blast
    have "validateCSVFiles es (p @ bad # (q @ None # ?post)) =
        \<lparr>valid = False, datasets = [], setError = setError (validateCSVFiles es [bad]),
         papaCalls = [0..<length p] @ map (\<lambda>_. length p) (papaCalls (validateCSVFiles es [bad]))\<rparr>"
      using pq by (intro validate_first_rejected) simp_all
    moreover have "files = p @ bad # (q @ None # ?post)"
      using files pq(1) by simp
    ultimately have r: "validateCSVFiles es files =
        \<lparr>valid = False, datasets = [], setError = setError (validateCSVFiles es [bad]),
         papaCalls = [0..<length p] @ map (\<lambda>_. length p) (papaCalls (validateCSVFiles es [bad]))\<rparr>"
      by simp
    have "length p < length ?pre"
      unfolding pq(1) by simp
    then have c: "\<forall>i\<in>set (papaCalls (validateCSVFiles es files)). i < length ?pre"
      by (auto simp: r)
    have "\<not> valid (validateCSVFiles es files)" "datasets (validateCSVFiles es files) = []"
      by (simp_all add: r)
    then show ?thesis using False c p1 p2 by blast
  qed
qed

theorem missing_slot_rejected_witness:
  "None \<in> set [Some usageCsv, None, Some loadCsv]
   \<and> takeWhile (\<lambda>s. s \<noteq> None) [Some usageCsv, None, Some loadCsv] = [Some usageCsv]
   \<and> valid (validateCSVFiles [Some 1, Some 4] [Some usageCsv])
   \<and> \<not> valid (validateCSVFiles [Some 1, Some 4] [Some usageCsv, None, Some loadCsv])
   \<and> setError (validateCSVFiles [Some 1, Some 4] [Some usageCsv, None, Some loadCsv]) =
       Some ''Please upload all required CSV files.''
   \<and> papaCalls (validateCSVFiles [Some 1, Some 4] [Some usageCsv, None, Some loadCsv]) = [0]"
  using missing_slot_rejected [of "[Some usageCsv, None, Some loadCsv]" "[Some 1, Some 4]"]
  by (simp add: eval_singles)

text \<open>
  The claim as stated fails on a valid file followed by an absent slot: the file is
  tokenized, and the message is the same as when the other slot is the absent one.
\<close>
theorem missing_slot_counterexample:
  "papaCalls (validateCSVFiles [Some 1, Some 1] [Some usageCsv, None]) = [0]
   \<and> setError (validateCSVFiles [Some 1, Some 1] [Some usageCsv, None]) =
       Some ''Please upload all required CSV files.''
   \<and> setError (validateCSVFiles [Some 1, Some 1] [None, Some usageCsv]) =
       Some ''Please upload all required CSV files.''
   \<and> setError (validateCSVFiles_part001 [Some usageCsv, None]) = None"
  by code_simp

section \<open>The entry sizes and the timeout\<close>

lemma change_in_range:
  "fst ev < length es \<Longrightarrow>
   handleEntrySizeChange es ev =
     es[fst ev := Some (case snd ev of None \<Rightarrow> 1 | Some n \<Rightarrow> if n = 0 then 1 else n)]"
  by (cases ev) (simp add: handleEntrySizeChange_def Let_def)

lemma changes_state:
  assumes "\<forall>ev\<in>set evs. fst ev < length es"
  shows "length (foldl handleEntrySizeChange es evs) = length es
     \<and> (\<forall>i<length es. foldl handleEntrySizeChange es evs ! i =
           (if filter (\<lambda>ev. fst ev = i) evs = [] then es ! i
            else Some (case snd (last (filter (\<lambda>ev. fst ev = i) evs)) of
                         None \<Rightarrow> 1 | Some n \<Rightarrow> if n = 0 then 1 else n)))"
  using assms
proof (induction evs rule: rev_induct)
  case Nil
  then show ?case by simp
next
  case (snoc ev evs)
  let ?s = "foldl handleEntrySizeChange es evs"
  have IH: "length ?s = length es"
    "\<forall>i<length es. ?s ! i =
           (if filter (\<lambda>ev. fst ev = i) evs = [] then es ! i
            else Some (case snd (last (filter (\<lambda>ev. fst ev = i) evs)) of
                         None \<Rightarrow> 1 | Some n \<Rightarrow> if n = 0 then 1 else n))"
    using snoc by simp_all
  have ev: "fst ev < length ?s"
    using snoc.prems IH(1) by simp
  have step: "foldl handleEntrySizeChange es (evs @ [ev]) =
      ?s[fst ev := Some (case snd ev of None \<Rightarrow> 1 | Some n \<Rightarrow> if n = 0 then 1 else n)]"
    using change_in_range [OF ev] by simp
  show ?case
    unfolding step using IH ev by (auto simp: nth_list_update)
qed

text \<open>
  Claim C4, amended. In \<open>src/app/page.tsx\<close> the element built for slot \<open>i\<close> carries
  \<open>entrySizes[i]\<close>. After the form has been reset to \<open>n\<close> slots and any sequence of
  inputs has been made in them, that state holds a value for every slot: \<open>1\<close> for a slot
  without input, and otherwise what the last input of the slot parsed to, with \<open>1\<close> in
  place of \<open>NaN\<close> and of \<open>0\<close>. The variant of \<open>src/unnamed/part_001\<close> never sends the
  field.
\<close>
theorem entry_size_sent_for_every_slot:
  "(valid (validateCSVFiles es files) \<longrightarrow>
      map entry_size (datasets (validateCSVFiles es files)) = map (arrayGet es) [0..<length files])
   \<and> ((\<forall>ev\<in>set evs. fst ev < n) \<longrightarrow>
        length (foldl handleEntrySizeChange (initEntrySizes n) evs) = n
        \<and> (\<forall>i<n. arrayGet (foldl handleEntrySizeChange (initEntrySizes n) evs) i =
              Some (if filter (\<lambda>ev. fst ev = i) evs = [] then 1
                    else (case snd (last (filter (\<lambda>ev. fst ev = i) evs)) of
                            None \<Rightarrow> 1 | Some v \<Rightarrow> if v = 0 then 1 else v))))
   \<and> (\<forall>d\<in>set (datasets (validateCSVFiles_part001 files')). entry_size d = None)"
proof (intro conjI impI)
  assume "valid (validateCSVFiles es files)"
  then have a: "\<forall>s\<in>set files. valid (validateCSVFiles es [s])" by (rule valid_all_slots)
  show "map entry_size (datasets (validateCSVFiles es files)) = map (arrayGet es) [0..<length files]"
    by (simp add: validate_all_accepted [OF a] pushed_def comp_def)
next
  assume "\<forall>ev\<in>set evs. fst ev < n"
  then have "\<forall>ev\<in>set evs. fst ev < length (initEntrySizes n)"
    by (simp add: initEntrySizes_def)
  note k = changes_state [OF this]
  show "length (foldl handleEntrySizeChange (initEntrySizes n) evs) = n"
    using k by (simp add: initEntrySizes_def)
  show "\<forall>i<n. arrayGet (foldl handleEntrySizeChange (initEntrySizes n) evs) i =
              Some (if filter (\<lambda>ev. fst ev = i) evs = [] then 1
                    else (case snd (last (filter (\<lambda>ev. fst ev = i) evs)) of
                            None \<Rightarrow> 1 | Some v \<Rightarrow> if v = 0 then 1 else v))"
    using k by (simp add: initEntrySizes_def arrayGet_def)
next
  show "\<forall>d\<in>set (datasets (validateCSVFiles_part001 files')). entry_size d = None"
    unfolding validateCSVFiles_part001_def by (rule part001_entry_size) simp
qed

theorem entry_size_sent_for_every_slot_witness:
  "map fst [(0::nat, Some (5::int)), (0, Some 0), (1, Some 4), (1, None), (2, Some 7)]
     = [0, 0, 1, 1, 2]
   \<and> foldl handleEntrySizeChange (initEntrySizes 4)
        [(0, Some 5), (0, Some 0), (1, Some 4), (1, None), (2, Some 7)]
       = [Some 1, Some 1, Some 7, Some 1]
   \<and> valid (validateCSVFiles [Some 1, Some 1, Some 7, Some 1]
        [Some usageCsv, Some loadCsv, Some usageCsv, Some loadCsv])
   \<and> map entry_size (datasets (validateCSVFiles [Some 1, Some 1, Some 7, Some 1]
        [Some usageCsv, Some loadCsv, Some usageCsv, Some loadCsv]))
       = [Some 1, Some 1, Some 7, Some 1]"
proof -
  let ?evs = "[(0::nat, Some (5::int)), (0, Some 0), (1, Some 4), (1, None), (2, Some 7)]"
  let ?s = "foldl handleEntrySizeChange (initEntrySizes 4) ?evs"
  note t = entry_size_sent_for_every_slot [of "[Some 1, Some 1, Some 7, Some 1]"
      "[Some usageCsv, Some loadCsv, Some usageCsv, Some loadCsv]" ?evs 4 "[]"]
  have v: "valid (validateCSVFiles [Some 1, Some 1, Some 7, Some 1]
        [Some usageCsv, Some loadCsv, Some usageCsv, Some loadCsv])"
    by code_simp
  have m: "map (arrayGet [Some 1, Some 1, Some 7, Some (1::int)])
        [0..<length [Some usageCsv, Some loadCsv, Some usageCsv, Some loadCsv]]
      = [Some 1, Some 1, Some 7, Some 1]"
    by code_simp
  have r: "\<forall>ev\<in>set ?evs. fst ev < (4::nat)"
    by simp
  have l: "length ?s = 4" and g: "\<forall>i<4. arrayGet ?s i =
              Some (if filter (\<lambda>ev. fst ev = i) ?evs = [] then 1
                    else (case snd (last (filter (\<lambda>ev. fst ev = i) ?evs)) of
                            None \<Rightarrow> 1 | Some v \<Rightarrow> if v = 0 then 1 else v))"
    using t r by blast+
  have "?s ! 0 = Some 1" "?s ! 1 = Some 1" "?s ! 2 = Some 7" "?s ! 3 = Some 1"
    using g l by (simp_all add: arrayGet_def)
  then have s: "?s = [Some 1, Some 1, Some 7, Some 1]"
    using l by (intro nth_equalityI) (auto simp: less_Suc_eq numeral_eq_Suc)
  show ?thesis
    using t v m s by simp
qed

text \<open>
  The claim as stated fails when the user supplies nothing, and when the user clears an
  input so that \<open>parseInt\<close> gives \<open>NaN\<close>: the field is sent with the value \<open>1\<close>.
\<close>
theorem entry_size_default_counterexample:
  "map entry_size (datasets (validateCSVFiles (initEntrySizes 1) [Some usageCsv])) = [Some 1]
   \<and> map entry_size (datasets (validateCSVFiles
         (foldl handleEntrySizeChange (initEntrySizes 1) [(0, Some 4), (0, None)])
         [Some usageCsv])) = [Some 1]"
  by code_simp






end
